theory Spec2Isabelle
  imports Main "HOL-Library.AList"
begin

section \<open>The HTTP/2 client protocol of scrapy/core/http2/protocol.py\<close>

text \<open>
  The development embeds the class \<open>H2ClientProtocol\<close>: its attributes are the fields of a
  record, its methods are functions from the state to the state, and an exception is the
  left summand of the result, paired with the state at the moment it is raised (the
  mutations made before a raise stay visible in Python).  The collaborators that the file
  imports (the codec \<open>h2\<close>, the transport and the deferred of Twisted) appear as the
  fields the protocol reads and as a log of the calls it makes on them.
\<close>

subsection \<open>Values of the environment\<close>

type_synonym bytes = string
type_synonym headers = "(string \<times> string) list"

text \<open>\<open>h2.errors.ErrorCodes\<close>: the two members the protocol uses.\<close>

datatype ErrorCodes = NO_ERROR | PROTOCOL_ERROR

text \<open>
  \<open>h2.events\<close>: the event classes that \<open>_handle_events\<close> tests for; \<open>OtherEvent\<close> stands
  for every other event class of the codec, which falls through the \<open>isinstance\<close> chain.
\<close>

datatype event =
    ConnectionTerminated ErrorCodes
  | DataReceived int bytes nat
  | ResponseReceived int headers
  | StreamEnded int
  | StreamReset int
  | WindowUpdated int
  | SettingsAcknowledged
  | UnknownFrameReceived string
  | OtherEvent string

text \<open>The exceptions and failures that the protocol raises, catches or stores.\<close>

datatype py_error =
    TypeError string
  | KeyError int
  | ProtocolError string
  | H2Error string
  | TimeoutError string
  | InvalidNegotiatedProtocol string
  | RemoteTerminatedConnection "string option" event
  | AlreadyCalledError
  | ConnectionDone
  | ConnectionFailure string

text \<open>\<open>except ProtocolError\<close> catches the codec's protocol violations only.\<close>

fun is_ProtocolError :: "py_error \<Rightarrow> bool" where
  "is_ProtocolError (ProtocolError m) = True"
| "is_ProtocolError e = False"

text \<open>
  \<open>reason.check(connectionDone)\<close>: Twisted's \<open>Failure.check\<close> looks for each of its
  arguments, an exception class or the qualified name of one, among the names of the
  classes of the failure's exception.  The module's \<open>connectionDone\<close> is a \<open>Failure\<close>
  instance, neither a class nor a name, so the test finds it for no reason at all, also
  not for \<open>connectionDone\<close> itself.
\<close>

definition check_connectionDone :: "py_error \<Rightarrow> bool" where
  "check_connectionDone reason = False"

text \<open>
  The list \<open>_conn_lost_errors\<close> is one object for the life of the protocol: \<open>append\<close>
  and \<open>+=\<close> change it in place.  The protocol hands this object, not a copy, to the
  connection-lost deferred and to the streams it closes, so what they hold is a reference
  to it; what the list contains is read from the protocol's state.
\<close>

datatype list_ref = ConnLostErrors

text \<open>The argument of \<open>request\<close>: an instance of \<open>scrapy.http.Request\<close>, or of another
  class (given by its qualified name).\<close>

datatype py_object = RequestObject string | OtherObject string

subsection \<open>The stream\<close>

datatype StreamCloseReason = ENDED | RESET | CONNECTION_LOST | INACTIVE

datatype stream_input = Headers headers | Data bytes nat | WindowUpdate

text \<open>
  Modelled from the spec: the class \<open>Stream\<close> of \<open>scrapy/core/http2/stream.py\<close> is not among
  the sources.  Of the spec's data model the record keeps the id, the request, the flag
  \<open>requestSent\<close>, the close reason (set when the stream enters \<open>Closed\<close>, so \<open>None\<close> means
  not closed), the completion slot as the list of its fulfilments (each the reason and the
  \<open>errors\<close> argument that \<open>close\<close> was given, \<open>None\<close> when the caller passed none), and
  the partial response state as the list of what the stream received.
\<close>

record stream =
  stream_id :: int
  stream_request :: string
  request_sent :: bool
  close_reason :: "StreamCloseReason option"
  completion :: "(StreamCloseReason \<times> list_ref option) list"
  received :: "stream_input list"

text \<open>Modelled from the spec: the constructor \<open>Stream(stream_id, request, protocol)\<close>; a
  stream is created with nothing sent, not closed and its completion unfulfilled.\<close>

definition new_Stream :: "int \<Rightarrow> string \<Rightarrow> stream" where
  "new_Stream sid req =
     \<lparr>stream_id = sid, stream_request = req, request_sent = False, close_reason = None,
      completion = [], received = []\<rparr>"

text \<open>Modelled from the spec: \<open>initiate()\<close> "instructs the codec to open a new logical
  exchange and submit the request's headers and body; sets requestSent = true".  This is
  the part on the stream; the instruction of the codec is logged by the protocol below.\<close>

definition initiate_request :: "stream \<Rightarrow> stream" where
  "initiate_request st = st\<lparr>request_sent := True\<rparr>"

text \<open>Modelled from the spec: \<open>close(reason, causes?, fromProtocol)\<close> is "idempotent per
  stream -- closing an already-Closed stream must be a safe no-op"; otherwise it
  "fulfills completion" and "transitions to Closed".\<close>

definition close :: "stream \<Rightarrow> StreamCloseReason \<Rightarrow> list_ref option \<Rightarrow> stream" where
  "close st reason errors =
     (if close_reason st \<noteq> None then st
      else st\<lparr>close_reason := Some reason, completion := completion st @ [(reason, errors)]\<rparr>)"

text \<open>Modelled from the spec: \<open>receiveHeaders\<close>, \<open>receiveData\<close> and \<open>receiveWindowUpdate\<close>
  "accumulate partial response state".\<close>

definition receive_headers :: "stream \<Rightarrow> headers \<Rightarrow> stream" where
  "receive_headers st hs = st\<lparr>received := received st @ [Headers hs]\<rparr>"

definition receive_data :: "stream \<Rightarrow> bytes \<Rightarrow> nat \<Rightarrow> stream" where
  "receive_data st d flow_controlled_length =
     st\<lparr>received := received st @ [Data d flow_controlled_length]\<rparr>"

definition receive_window_update :: "stream \<Rightarrow> stream" where
  "receive_window_update st = st\<lparr>received := received st @ [WindowUpdate]\<rparr>"

subsection \<open>The collaborators\<close>

text \<open>
  Twisted's \<open>Deferred\<close>, as far as the protocol uses it: \<open>callback\<close> fires it once with
  the object it is given (\<open>None\<close> in \<open>result\<close> means not fired yet), and a second
  \<open>callback\<close> raises \<open>AlreadyCalledError\<close>.
\<close>

record deferred =
  called :: bool
  result :: "list_ref option"

definition callback :: "deferred \<Rightarrow> list_ref \<Rightarrow> py_error + deferred" where
  "callback d r =
     (if called d then Inl AlreadyCalledError else Inr (d\<lparr>called := True, result := Some r\<rparr>))"

text \<open>The codec \<open>H2Connection\<close>: the four values the protocol reads from it.\<close>

record H2Connection =
  local_max_concurrent_streams :: int
  remote_max_concurrent_streams :: int
  open_outbound_streams :: int
  open_inbound_streams :: int

text \<open>\<open>conn.receive_data(data)\<close>: the codec is a parameter; it returns its new state and
  either the exception it raises or the events it produces.\<close>

type_synonym codec = "H2Connection \<Rightarrow> bytes \<Rightarrow> H2Connection \<times> (py_error + event list)"

record Transport =
  connected :: bool
  peer_certificate :: string

text \<open>The calls the protocol makes on its collaborators, in the order it makes them.\<close>

datatype effect =
    SetTimeout "nat option"
  | ResetTimeout
  | TransportWrite
  | TransportLoseConnection
  | ConnDataToSend
  | ConnCloseConnection ErrorCodes
  | ConnOpenStream int
  | LogDebug string

subsection \<open>The state of the protocol\<close>

text \<open>
  The attributes set by \<open>__init__\<close>.  A \<open>Stream\<close> object is shared by the dictionary
  \<open>streams\<close> and the deque \<open>_pending_request_stream_pool\<close>, and \<open>initiate_request\<close> changes
  it through the deque while \<open>connectionLost\<close> reads it through the dictionary; so the
  objects live in a store (\<open>objects\<close>, every stream the protocol created, in the order of
  creation) and the two containers hold references, which are positions in the store.
  A dictionary is an association list in the order of insertion; it is only changed by
  \<open>AList.update\<close> (item assignment), \<open>AList.delete\<close> (\<open>pop\<close>) and \<open>clear\<close>, so no key occurs
  twice and its length is \<open>len\<close> of the dictionary.
\<close>

record H2ClientProtocol =
  conn_lost_deferred :: "deferred option"
  conn :: H2Connection
  transport :: Transport
  stream_id_generator :: int
  objects :: "stream list"
  streams :: "(int \<times> nat) list"
  pending_request_stream_pool :: "nat list"
  active_streams :: int
  settings_acknowledged_flag :: bool
  conn_lost_errors :: "py_error list"
  certificate :: "string option"
  ip_address :: "string option"
  effects :: "effect list"

type_synonym outcome = "(py_error \<times> H2ClientProtocol) + H2ClientProtocol"

text \<open>\<open>__init__\<close>; the codec and the transport are those the environment supplies.\<close>

definition init :: "deferred option \<Rightarrow> H2Connection \<Rightarrow> Transport \<Rightarrow> H2ClientProtocol" where
  "init d c t =
     \<lparr>conn_lost_deferred = d, conn = c, transport = t, stream_id_generator = 1,
      objects = [], streams = [], pending_request_stream_pool = [], active_streams = 0,
      settings_acknowledged_flag = False, conn_lost_errors = [], certificate = None,
      ip_address = None, effects = []\<rparr>"

text \<open>A method call on the stream object behind a reference.  A reference that the
  protocol holds always points into the store (for the registry this is part of the
  invariant proved below); at a position outside the store the update changes nothing.\<close>

definition update_object :: "H2ClientProtocol \<Rightarrow> nat \<Rightarrow> (stream \<Rightarrow> stream) \<Rightarrow> H2ClientProtocol" where
  "update_object s r f = s\<lparr>objects := (objects s)[r := f (objects s ! r)]\<rparr>"

subsection \<open>Admission\<close>

definition h2_connected :: "H2ClientProtocol \<Rightarrow> bool" where
  "h2_connected s = (connected (transport s) \<and> settings_acknowledged_flag s)"

definition allowed_max_concurrent_streams :: "H2ClientProtocol \<Rightarrow> int" where
  "allowed_max_concurrent_streams s =
     min (local_max_concurrent_streams (conn s)) (remote_max_concurrent_streams (conn s))"

text \<open>\<open>stream.initiate_request()\<close> on the object behind the reference; the codec is
  instructed to open the stream with that id.\<close>

definition stream_initiate_request :: "H2ClientProtocol \<Rightarrow> nat \<Rightarrow> H2ClientProtocol" where
  "stream_initiate_request s r =
     (update_object s r initiate_request)
       \<lparr>effects := effects s @ [ConnOpenStream (stream_id (objects s ! r))]\<rparr>"

text \<open>\<open>_send_pending_requests\<close>: the \<open>while\<close> loop; each round increments the counter,
  pops the head of the deque and initiates that stream.\<close>

function send_pending_requests :: "H2ClientProtocol \<Rightarrow> H2ClientProtocol" where
  "send_pending_requests s =
     (case pending_request_stream_pool s of
        [] \<Rightarrow> s
      | r # rest \<Rightarrow>
          if active_streams s < allowed_max_concurrent_streams s \<and> h2_connected s
          then send_pending_requests
                 (stream_initiate_request
                    (s\<lparr>active_streams := active_streams s + 1,
                       pending_request_stream_pool := rest\<rparr>) r)
          else s)"
  by pat_completeness auto
termination
  by (relation "measure (\<lambda>s. length (pending_request_stream_pool s))")
     (auto simp: stream_initiate_request_def update_object_def)

text \<open>The number of rounds the loop of \<open>_send_pending_requests\<close> makes from a state: the
  free capacity or the length of the queue, whichever is smaller, and none when the
  connection is not ready.\<close>

definition admissible :: "H2ClientProtocol \<Rightarrow> nat" where
  "admissible s =
     (if h2_connected s
      then min (length (pending_request_stream_pool s))
               (nat (allowed_max_concurrent_streams s - active_streams s))
      else 0)"

text \<open>\<open>pop_stream\<close>: \<open>self.streams.pop(stream_id)\<close> raises \<open>KeyError\<close> for a key that is
  not in the dictionary, before anything is changed.\<close>

definition pop_stream :: "H2ClientProtocol \<Rightarrow> int \<Rightarrow> (py_error \<times> H2ClientProtocol) + (nat \<times> H2ClientProtocol)" where
  "pop_stream s sid =
     (case map_of (streams s) sid of
        None \<Rightarrow> Inl (KeyError sid, s)
      | Some r \<Rightarrow>
          Inr (r, send_pending_requests
                    (s\<lparr>streams := AList.delete sid (streams s),
                       active_streams := active_streams s - 1\<rparr>)))"

text \<open>\<open>_new_stream\<close>: the next value of \<open>itertools.count(start=1, step=2)\<close> is the id.\<close>

definition new_stream :: "H2ClientProtocol \<Rightarrow> string \<Rightarrow> nat \<times> H2ClientProtocol" where
  "new_stream s req =
     (let sid = stream_id_generator s; r = length (objects s)
      in (r, s\<lparr>stream_id_generator := sid + 2,
               objects := objects s @ [new_Stream sid req],
               streams := AList.update sid r (streams s)\<rparr>))"

definition write_to_transport :: "H2ClientProtocol \<Rightarrow> H2ClientProtocol" where
  "write_to_transport s = s\<lparr>effects := effects s @ [ResetTimeout, ConnDataToSend, TransportWrite]\<rparr>"

text \<open>\<open>request\<close>: the result is the reference of the new stream, whose completion is the
  deferred that the method returns.\<close>

definition request :: "H2ClientProtocol \<Rightarrow> py_object \<Rightarrow> (py_error \<times> H2ClientProtocol) + (nat \<times> H2ClientProtocol)" where
  "request s obj =
     (case obj of
        OtherObject qualname \<Rightarrow>
          Inl (TypeError (''Expected scrapy.http.Request, received '' @ qualname), s)
      | RequestObject req \<Rightarrow>
          (let (r, s1) = new_stream s req;
               s2 = s1\<lparr>pending_request_stream_pool := pending_request_stream_pool s1 @ [r]\<rparr>
           in Inr (r, send_pending_requests s2)))"

subsection \<open>Losing the connection\<close>

definition lose_connection_with_error :: "H2ClientProtocol \<Rightarrow> py_error list \<Rightarrow> H2ClientProtocol" where
  "lose_connection_with_error s errors =
     s\<lparr>conn_lost_errors := conn_lost_errors s @ errors,
       effects := effects s @ [TransportLoseConnection]\<rparr>"

definition timeoutConnection :: "H2ClientProtocol \<Rightarrow> H2ClientProtocol" where
  "timeoutConnection s =
     (let error_code =
            (if open_outbound_streams (conn s) > 0
                \<or> open_inbound_streams (conn s) > 0
                \<or> active_streams s > 0
             then PROTOCOL_ERROR else NO_ERROR);
          s1 = s\<lparr>effects := effects s @ [ConnCloseConnection error_code]\<rparr>;
          s2 = write_to_transport s1
      in lose_connection_with_error s2
           [TimeoutError ''Connection was IDLE for more than 240s''])"

text \<open>The loop of \<open>connectionLost\<close> over \<open>self.streams.values()\<close>.\<close>

definition close_on_connection_lost :: "stream \<Rightarrow> stream" where
  "close_on_connection_lost st =
     (if request_sent st then close st CONNECTION_LOST (Some ConnLostErrors)
      else close st INACTIVE None)"

primrec close_streams :: "nat list \<Rightarrow> H2ClientProtocol \<Rightarrow> H2ClientProtocol" where
  "close_streams [] s = s"
| "close_streams (r # rs) s =
     close_streams rs (update_object s r close_on_connection_lost)"

text \<open>\<open>connectionLost\<close>; the deferred and the streams that had sent their request are
  given the list \<open>self._conn_lost_errors\<close> itself.\<close>

definition connectionLost :: "H2ClientProtocol \<Rightarrow> py_error \<Rightarrow> outcome" where
  "connectionLost s0 reason =
     (let s1 = s0\<lparr>effects := effects s0 @ [SetTimeout None]\<rparr>;
          s2 = (if \<not> check_connectionDone reason
                then s1\<lparr>conn_lost_errors := conn_lost_errors s1 @ [reason]\<rparr> else s1);
          fired = (case conn_lost_deferred s2 of
                     None \<Rightarrow> Inr None
                   | Some d \<Rightarrow>
                       (case callback d ConnLostErrors of
                          Inl e \<Rightarrow> Inl e
                        | Inr d' \<Rightarrow> Inr (Some d')))
      in case fired of
           Inl e \<Rightarrow> Inl (e, s2)
         | Inr d' \<Rightarrow>
             (let s3 = close_streams (map snd (streams s2)) (s2\<lparr>conn_lost_deferred := d'\<rparr>);
                  s4 = s3\<lparr>active_streams := active_streams s3 - int (length (streams s3))\<rparr>
              in Inr (s4\<lparr>streams := [], pending_request_stream_pool := [],
                         effects := effects s4 @ [ConnCloseConnection NO_ERROR]\<rparr>)))"

subsection \<open>The event handlers\<close>

definition connection_terminated :: "H2ClientProtocol \<Rightarrow> event \<Rightarrow> H2ClientProtocol" where
  "connection_terminated s ev =
     lose_connection_with_error s [RemoteTerminatedConnection (ip_address s) ev]"

text \<open>\<open>self.streams[event.stream_id]\<close> raises \<open>KeyError\<close> for a key that is not in the
  dictionary.\<close>

definition data_received :: "H2ClientProtocol \<Rightarrow> int \<Rightarrow> bytes \<Rightarrow> nat \<Rightarrow> outcome" where
  "data_received s sid d flow_controlled_length =
     (case map_of (streams s) sid of
        None \<Rightarrow> Inl (KeyError sid, s)
      | Some r \<Rightarrow> Inr (update_object s r (\<lambda>st. receive_data st d flow_controlled_length)))"

definition response_received :: "H2ClientProtocol \<Rightarrow> int \<Rightarrow> headers \<Rightarrow> outcome" where
  "response_received s sid hs =
     (case map_of (streams s) sid of
        None \<Rightarrow> Inl (KeyError sid, s)
      | Some r \<Rightarrow> Inr (update_object s r (\<lambda>st. receive_headers st hs)))"

definition settings_acknowledged :: "H2ClientProtocol \<Rightarrow> H2ClientProtocol" where
  "settings_acknowledged s =
     (let s1 = send_pending_requests (s\<lparr>settings_acknowledged_flag := True\<rparr>)
      in s1\<lparr>certificate := Some (peer_certificate (transport s1))\<rparr>)"

definition stream_ended :: "H2ClientProtocol \<Rightarrow> int \<Rightarrow> outcome" where
  "stream_ended s sid =
     (case pop_stream s sid of
        Inl e \<Rightarrow> Inl e
      | Inr (r, s1) \<Rightarrow> Inr (update_object s1 r (\<lambda>st. close st ENDED None)))"

definition stream_reset :: "H2ClientProtocol \<Rightarrow> int \<Rightarrow> outcome" where
  "stream_reset s sid =
     (case pop_stream s sid of
        Inl e \<Rightarrow> Inl e
      | Inr (r, s1) \<Rightarrow> Inr (update_object s1 r (\<lambda>st. close st RESET None)))"

primrec window_update_all :: "nat list \<Rightarrow> H2ClientProtocol \<Rightarrow> H2ClientProtocol" where
  "window_update_all [] s = s"
| "window_update_all (r # rs) s = window_update_all rs (update_object s r receive_window_update)"

definition window_updated :: "H2ClientProtocol \<Rightarrow> int \<Rightarrow> outcome" where
  "window_updated s sid =
     (if sid \<noteq> 0
      then (case map_of (streams s) sid of
              None \<Rightarrow> Inl (KeyError sid, s)
            | Some r \<Rightarrow> Inr (update_object s r receive_window_update))
      else Inr (window_update_all (map snd (streams s)) s))"

text \<open>One round of the loop of \<open>_handle_events\<close>: the \<open>isinstance\<close> chain.\<close>

fun handle_event :: "H2ClientProtocol \<Rightarrow> event \<Rightarrow> outcome" where
  "handle_event s (ConnectionTerminated c) = Inr (connection_terminated s (ConnectionTerminated c))"
| "handle_event s (DataReceived sid d n) = data_received s sid d n"
| "handle_event s (ResponseReceived sid hs) = response_received s sid hs"
| "handle_event s (StreamEnded sid) = stream_ended s sid"
| "handle_event s (StreamReset sid) = stream_reset s sid"
| "handle_event s (WindowUpdated sid) = window_updated s sid"
| "handle_event s SettingsAcknowledged = Inr (settings_acknowledged s)"
| "handle_event s (UnknownFrameReceived frame) =
     Inr (s\<lparr>effects := effects s @ [LogDebug (''UnknownFrameReceived: frame='' @ frame)]\<rparr>)"
| "handle_event s (OtherEvent name) = Inr s"

text \<open>\<open>_handle_events\<close>: an exception of a handler ends the loop and propagates.\<close>

fun handle_events :: "H2ClientProtocol \<Rightarrow> event list \<Rightarrow> outcome" where
  "handle_events s [] = Inr s"
| "handle_events s (ev # evs) =
     (case handle_event s ev of
        Inl e \<Rightarrow> Inl e
      | Inr s1 \<Rightarrow> handle_events s1 evs)"

text \<open>\<open>dataReceived\<close>: \<open>try\<close> the codec and the dispatch, \<open>except ProtocolError\<close> lose the
  connection, \<open>finally\<close> write to the transport (also when another exception propagates).\<close>

definition dataReceived :: "codec \<Rightarrow> H2ClientProtocol \<Rightarrow> bytes \<Rightarrow> outcome" where
  "dataReceived receive s0 d =
     (let s = s0\<lparr>effects := effects s0 @ [ResetTimeout]\<rparr>;
          (c, produced) = receive (conn s) d;
          s1 = s\<lparr>conn := c\<rparr>;
          tried = (case produced of
                     Inl e \<Rightarrow> Inl (e, s1)
                   | Inr events \<Rightarrow> handle_events s1 events)
      in case tried of
           Inl (e, s2) \<Rightarrow>
             if is_ProtocolError e
             then Inr (write_to_transport (lose_connection_with_error s2 [e]))
             else Inl (e, write_to_transport s2)
         | Inr s2 \<Rightarrow> Inr (write_to_transport s2))"

subsection \<open>Outcomes and sequences of calls\<close>

text \<open>The state a call leaves, whether it returns or raises.\<close>

definition outcome_state :: "outcome \<Rightarrow> H2ClientProtocol" where
  "outcome_state res = (case res of Inl (e, s) \<Rightarrow> s | Inr s \<Rightarrow> s)"

definition state_after :: "(py_error \<times> H2ClientProtocol) + ('a \<times> H2ClientProtocol) \<Rightarrow> H2ClientProtocol" where
  "state_after res = (case res of Inl (e, s) \<Rightarrow> s | Inr (x, s) \<Rightarrow> s)"

text \<open>The stream id that an event of the codec names.\<close>

fun event_stream_id :: "event \<Rightarrow> int option" where
  "event_stream_id (DataReceived sid d n) = Some sid"
| "event_stream_id (ResponseReceived sid hs) = Some sid"
| "event_stream_id (StreamEnded sid) = Some sid"
| "event_stream_id (StreamReset sid) = Some sid"
| "event_stream_id (WindowUpdated sid) = Some sid"
| "event_stream_id ev = None"

text \<open>
  The calls that the environment makes on the protocol (the pool submitting a request,
  Twisted delivering bytes, the idle timeout and the loss of the connection), and the
  transport changing its state between two calls.  A call that raises leaves the state it
  had reached, and the next call goes on from there.
\<close>

datatype call =
    CallRequest py_object
  | CallDataReceived bytes
  | CallTimeoutConnection
  | CallConnectionLost py_error
  | TransportBecomes Transport

fun perform :: "codec \<Rightarrow> H2ClientProtocol \<Rightarrow> call \<Rightarrow> H2ClientProtocol" where
  "perform receive s (CallRequest obj) = state_after (request s obj)"
| "perform receive s (CallDataReceived d) = outcome_state (dataReceived receive s d)"
| "perform receive s CallTimeoutConnection = timeoutConnection s"
| "perform receive s (CallConnectionLost reason) = outcome_state (connectionLost s reason)"
| "perform receive s (TransportBecomes t) = s\<lparr>transport := t\<rparr>"

text \<open>The ids of the streams that the calls of \<open>request\<close> in a sequence of calls
  created, in the order of the calls.\<close>

fun allocated_ids :: "codec \<Rightarrow> H2ClientProtocol \<Rightarrow> call list \<Rightarrow> int list" where
  "allocated_ids receive s [] = []"
| "allocated_ids receive s (CallRequest obj # calls) =
     (case request s obj of
        Inl e \<Rightarrow> allocated_ids receive (perform receive s (CallRequest obj)) calls
      | Inr (r, s') \<Rightarrow>
          stream_id (objects s' ! r) # allocated_ids receive (perform receive s (CallRequest obj)) calls)"
| "allocated_ids receive s (c # calls) = allocated_ids receive (perform receive s c) calls"

text \<open>The calls that submit a \<open>Request\<close>.\<close>

fun submits :: "call \<Rightarrow> bool" where
  "submits (CallRequest (RequestObject q)) = True"
| "submits c = False"

text \<open>The state after a sequence of calls.\<close>

definition run :: "codec \<Rightarrow> H2ClientProtocol \<Rightarrow> call list \<Rightarrow> H2ClientProtocol" where
  "run receive s calls = foldl (perform receive) s calls"

subsection \<open>Notions for the loss of the connection\<close>

text \<open>The connection-lost deferred, if the session has one, has not been fired.\<close>

definition deferred_unfired :: "H2ClientProtocol \<Rightarrow> bool" where
  "deferred_unfired s = (case conn_lost_deferred s of None \<Rightarrow> True | Some d \<Rightarrow> \<not> called d)"

text \<open>\<open>self.streams.values()\<close>: the references the registry holds, in its order.\<close>

definition registered :: "H2ClientProtocol \<Rightarrow> nat list" where
  "registered s = map snd (streams s)"

text \<open>Every stream of the registry exists and is not closed.\<close>

definition registry_open :: "H2ClientProtocol \<Rightarrow> bool" where
  "registry_open s =
     (\<forall>r \<in> set (registered s). r < length (objects s) \<and> close_reason (objects s ! r) = None)"

text \<open>The fulfilments that the completion of the stream behind a reference received
  between two states, and the streams whose completion received exactly a given one.\<close>

definition new_fulfilments :: "H2ClientProtocol \<Rightarrow> H2ClientProtocol \<Rightarrow> nat \<Rightarrow> (StreamCloseReason \<times> list_ref option) list" where
  "new_fulfilments s s' r =
     drop (length (completion (objects s ! r))) (completion (objects s' ! r))"

definition resolved_with :: "H2ClientProtocol \<Rightarrow> H2ClientProtocol \<Rightarrow> StreamCloseReason \<times> list_ref option \<Rightarrow> nat list" where
  "resolved_with s s' f =
     filter (\<lambda>r. new_fulfilments s s' r = [f]) [0..<length (objects s)]"

text \<open>The registered streams that sent their request, and those that did not.\<close>

definition sent_streams :: "H2ClientProtocol \<Rightarrow> nat list" where
  "sent_streams s =
     filter (\<lambda>r. r \<in> set (registered s) \<and> request_sent (objects s ! r)) [0..<length (objects s)]"

definition unsent_streams :: "H2ClientProtocol \<Rightarrow> nat list" where
  "unsent_streams s =
     filter (\<lambda>r. r \<in> set (registered s) \<and> \<not> request_sent (objects s ! r)) [0..<length (objects s)]"

text \<open>What a holder of a reference to the list of causes reads in a state.\<close>

definition deref :: "H2ClientProtocol \<Rightarrow> list_ref \<Rightarrow> py_error list" where
  "deref s l = (case l of ConnLostErrors \<Rightarrow> conn_lost_errors s)"

subsection \<open>Invariants\<close>

text \<open>The registry is a dictionary (no key twice), no stream is registered twice, and
  every registered stream exists and is open.\<close>

definition registry_sound :: "H2ClientProtocol \<Rightarrow> bool" where
  "registry_sound s =
     (distinct (map fst (streams s)) \<and> distinct (registered s) \<and> registry_open s)"

text \<open>The counter is within the allowed concurrency.\<close>

definition within_limit :: "H2ClientProtocol \<Rightarrow> bool" where
  "within_limit s = (active_streams s \<le> allowed_max_concurrent_streams s)"


subsection \<open>Example sessions\<close>

text \<open>A codec state that allows two concurrent streams, an open transport and a deferred
  that has not fired.\<close>

definition example_conn :: H2Connection where
  "example_conn =
     \<lparr>local_max_concurrent_streams = 2, remote_max_concurrent_streams = 100,
      open_outbound_streams = 0, open_inbound_streams = 0\<rparr>"

definition example_transport :: Transport where
  "example_transport = \<lparr>connected = True, peer_certificate = ''certificate''\<rparr>"

definition example_deferred :: deferred where
  "example_deferred = \<lparr>called = False, result = None\<rparr>"

text \<open>Codecs: one that rejects its input, one that produces an event for a stream the
  session never created, and one that produces the acknowledgement of the settings.\<close>

definition violating_codec :: codec where
  "violating_codec c d = (c, Inl (ProtocolError ''bad frame''))"

definition unknown_stream_codec :: codec where
  "unknown_stream_codec c d = (c, Inr [DataReceived 7 ''x'' 1, SettingsAcknowledged])"

definition acknowledging_codec :: codec where
  "acknowledging_codec c d = (c, Inr [SettingsAcknowledged])"


text \<open>Sessions: one request submitted before the settings are acknowledged; three
  requests submitted before the settings are acknowledged, the same with the flag set, and
  the same once the acknowledgement is dispatched (two admitted, one queued); that session
  after the connection is lost; and a fresh session without a deferred after the
  connection is lost.\<close>

definition one_queued :: H2ClientProtocol where
  "one_queued =
     state_after (request (init (Some example_deferred) example_conn example_transport)
                    (RequestObject ''a''))"

definition three_queued :: H2ClientProtocol where
  "three_queued =
     state_after (request (state_after (request (state_after (request
       (init (Some example_deferred) example_conn example_transport)
       (RequestObject ''a''))) (RequestObject ''b''))) (RequestObject ''c''))"

definition three_ready :: H2ClientProtocol where
  "three_ready = three_queued\<lparr>settings_acknowledged_flag := True\<rparr>"

definition two_sent_one_queued :: H2ClientProtocol where
  "two_sent_one_queued = settings_acknowledged three_queued"




section \<open>Frame properties and the admission loop\<close>

declare send_pending_requests.simps [simp del]

lemma update_object_fields [simp]:
  "conn_lost_deferred (update_object s r f) = conn_lost_deferred s"
  "conn (update_object s r f) = conn s"
  "transport (update_object s r f) = transport s"
  "stream_id_generator (update_object s r f) = stream_id_generator s"
  "streams (update_object s r f) = streams s"
  "pending_request_stream_pool (update_object s r f) = pending_request_stream_pool s"
  "active_streams (update_object s r f) = active_streams s"
  "settings_acknowledged_flag (update_object s r f) = settings_acknowledged_flag s"
  "conn_lost_errors (update_object s r f) = conn_lost_errors s"
  "certificate (update_object s r f) = certificate s"
  "ip_address (update_object s r f) = ip_address s"
  "effects (update_object s r f) = effects s"
  "length (objects (update_object s r f)) = length (objects s)"
  by (simp_all add: update_object_def)

lemma update_object_nth:
  "i < length (objects s) \<Longrightarrow>
   objects (update_object s r f) ! i = (if i = r then f (objects s ! i) else objects s ! i)"
  by (simp add: update_object_def nth_list_update)

lemma update_object_ids:
  "(\<And>st. stream_id (f st) = stream_id st) \<Longrightarrow>
   map stream_id (objects (update_object s r f)) = map stream_id (objects s)"
  by (cases "r < length (objects s)")
     (simp_all add: update_object_def map_update list_update_same_conv list_update_beyond)

lemma stream_method_ids [simp]:
  "stream_id (initiate_request st) = stream_id st"
  "stream_id (close st reason errors) = stream_id st"
  "stream_id (receive_headers st hs) = stream_id st"
  "stream_id (receive_data st d n) = stream_id st"
  "stream_id (receive_window_update st) = stream_id st"
  "stream_id (close_on_connection_lost st) = stream_id st"
  by (simp_all add: initiate_request_def close_def receive_headers_def receive_data_def
      receive_window_update_def close_on_connection_lost_def)

lemma stream_initiate_request_fields [simp]:
  "conn_lost_deferred (stream_initiate_request s r) = conn_lost_deferred s"
  "conn (stream_initiate_request s r) = conn s"
  "transport (stream_initiate_request s r) = transport s"
  "stream_id_generator (stream_initiate_request s r) = stream_id_generator s"
  "streams (stream_initiate_request s r) = streams s"
  "pending_request_stream_pool (stream_initiate_request s r) = pending_request_stream_pool s"
  "active_streams (stream_initiate_request s r) = active_streams s"
  "settings_acknowledged_flag (stream_initiate_request s r) = settings_acknowledged_flag s"
  "conn_lost_errors (stream_initiate_request s r) = conn_lost_errors s"
  "certificate (stream_initiate_request s r) = certificate s"
  "ip_address (stream_initiate_request s r) = ip_address s"
  "effects (stream_initiate_request s r) = effects s @ [ConnOpenStream (stream_id (objects s ! r))]"
  "length (objects (stream_initiate_request s r)) = length (objects s)"
  "map stream_id (objects (stream_initiate_request s r)) = map stream_id (objects s)"
  by (simp_all add: stream_initiate_request_def update_object_ids)

lemma h2_connected_cong:
  "transport s' = transport s \<Longrightarrow> settings_acknowledged_flag s' = settings_acknowledged_flag s \<Longrightarrow>
   h2_connected s' = h2_connected s"
  by (simp add: h2_connected_def)

lemma allowed_cong:
  "conn s' = conn s \<Longrightarrow> allowed_max_concurrent_streams s' = allowed_max_concurrent_streams s"
  by (simp add: allowed_max_concurrent_streams_def)

lemma send_pending_requests_fields [simp]:
  "conn_lost_deferred (send_pending_requests s) = conn_lost_deferred s"
  "conn (send_pending_requests s) = conn s"
  "transport (send_pending_requests s) = transport s"
  "stream_id_generator (send_pending_requests s) = stream_id_generator s"
  "streams (send_pending_requests s) = streams s"
  "settings_acknowledged_flag (send_pending_requests s) = settings_acknowledged_flag s"
  "conn_lost_errors (send_pending_requests s) = conn_lost_errors s"
  "certificate (send_pending_requests s) = certificate s"
  "ip_address (send_pending_requests s) = ip_address s"
  "length (objects (send_pending_requests s)) = length (objects s)"
  "map stream_id (objects (send_pending_requests s)) = map stream_id (objects s)"
  by (induction s rule: send_pending_requests.induct;
      subst send_pending_requests.simps; simp split: list.splits)+


lemma spr_stop:
  "pending_request_stream_pool s = [] \<or> \<not> active_streams s < allowed_max_concurrent_streams s
     \<or> \<not> h2_connected s \<Longrightarrow> send_pending_requests s = s"
  by (subst send_pending_requests.simps) (auto split: list.splits)

lemma spr_step:
  "pending_request_stream_pool s = r # rest \<Longrightarrow>
   active_streams s < allowed_max_concurrent_streams s \<Longrightarrow> h2_connected s \<Longrightarrow>
   send_pending_requests s =
     send_pending_requests
       (stream_initiate_request
          (s\<lparr>active_streams := active_streams s + 1, pending_request_stream_pool := rest\<rparr>) r)"
  by (subst send_pending_requests.simps) simp

lemma admissible_stop:
  "pending_request_stream_pool s = [] \<or> \<not> active_streams s < allowed_max_concurrent_streams s
     \<or> \<not> h2_connected s \<Longrightarrow> admissible s = 0"
  by (auto simp: admissible_def)

lemma admissible_step:
  "pending_request_stream_pool s = r # rest \<Longrightarrow>
   active_streams s < allowed_max_concurrent_streams s \<Longrightarrow> h2_connected s \<Longrightarrow>
   admissible s =
     Suc (admissible (stream_initiate_request
          (s\<lparr>active_streams := active_streams s + 1, pending_request_stream_pool := rest\<rparr>) r))"
  by (auto simp: admissible_def h2_connected_def allowed_max_concurrent_streams_def min_def)



lemma nth_list_update_total:
  "xs[r := v] ! i = (if i = r \<and> r < length xs then v else xs ! i)"
  by (cases "r < length xs") (simp_all add: nth_list_update list_update_beyond)

lemma update_object_nth':
  "objects (update_object s r f) ! i =
     (if i = r \<and> r < length (objects s) then f (objects s ! i) else objects s ! i)"
  by (simp add: update_object_def nth_list_update_total)

lemma stream_initiate_request_nth:
  "objects (stream_initiate_request s r) ! i =
     (if i = r \<and> r < length (objects s) then initiate_request (objects s ! i) else objects s ! i)"
  by (simp add: stream_initiate_request_def update_object_def nth_list_update_total)

lemma stream_initiate_request_id_nth [simp]:
  "stream_id (objects (stream_initiate_request s r) ! i) = stream_id (objects s ! i)"
  by (simp add: stream_initiate_request_nth)

lemma spr_id_nth [simp]:
  "stream_id (objects (send_pending_requests s) ! i) = stream_id (objects s ! i)"
  by (induction s rule: send_pending_requests.induct;
      subst send_pending_requests.simps; simp split: list.splits)

lemma spr_cases:
  obtains (stop) "send_pending_requests s = s" "admissible s = 0"
      "pending_request_stream_pool s = [] \<or> \<not> active_streams s < allowed_max_concurrent_streams s
         \<or> \<not> h2_connected s"
  | (step) r rest where "pending_request_stream_pool s = r # rest"
      "active_streams s < allowed_max_concurrent_streams s" "h2_connected s"
      "send_pending_requests s =
         send_pending_requests
           (stream_initiate_request
              (s\<lparr>active_streams := active_streams s + 1, pending_request_stream_pool := rest\<rparr>) r)"
      "admissible s =
         Suc (admissible (stream_initiate_request
              (s\<lparr>active_streams := active_streams s + 1, pending_request_stream_pool := rest\<rparr>) r))"
proof (cases "pending_request_stream_pool s = [] \<or> \<not> active_streams s < allowed_max_concurrent_streams s
     \<or> \<not> h2_connected s")
  case True
  show ?thesis by (rule stop [OF spr_stop [OF True] admissible_stop [OF True] True])
next
  case False
  then obtain r rest where p: "pending_request_stream_pool s = r # rest"
    by (cases "pending_request_stream_pool s") auto
  from False have a: "active_streams s < allowed_max_concurrent_streams s" and c: "h2_connected s"
    by auto
  show ?thesis using step [OF p a c spr_step [OF p a c] admissible_step [OF p a c]] .
qed



lemma initiate_request_idem [simp]:
  "initiate_request (initiate_request st) = initiate_request st"
  by (simp add: initiate_request_def)

lemma spr_objects:
  "objects (send_pending_requests s) ! i =
     (if i \<in> set (take (admissible s) (pending_request_stream_pool s)) \<and> i < length (objects s)
      then initiate_request (objects s ! i) else objects s ! i)"
proof (induction s rule: send_pending_requests.induct)
  case (1 s)
  show ?case
  proof (cases s rule: spr_cases)
    case stop
    then show ?thesis by simp
  next
    case (step r rest)
    show ?thesis
      using "1.IH" [OF step(1)] step(2,3)
      by (auto simp: step(1,4,5) stream_initiate_request_nth)
  qed
qed



text \<open>The definitions that evaluate the example sessions.\<close>

lemmas example_defs = three_ready_def three_queued_def state_after_def request_def new_stream_def init_def
      example_conn_def example_transport_def example_deferred_def h2_connected_def new_Stream_def
      allowed_max_concurrent_streams_def admissible_def

section \<open>Submitting something that is not a request\<close>

text \<open>
  C9: for every input of \<open>request\<close> that is not a \<open>Request\<close> instance the method raises
  \<open>TypeError\<close> and the session is as it was: no stream is created, no id is taken from the
  generator and nothing joins the registry or the pending queue.
\<close>

theorem request_not_a_Request_raises_TypeError:
  "request s (OtherObject qualname) =
     Inl (TypeError (''Expected scrapy.http.Request, received '' @ qualname), s)"
  by (simp add: request_def)

section \<open>The admission loop in closed form\<close>


section \<open>Idle timeout and received bytes\<close>

lemma write_to_transport_fields [simp]:
  "conn_lost_deferred (write_to_transport s) = conn_lost_deferred s"
  "conn (write_to_transport s) = conn s"
  "transport (write_to_transport s) = transport s"
  "stream_id_generator (write_to_transport s) = stream_id_generator s"
  "objects (write_to_transport s) = objects s"
  "streams (write_to_transport s) = streams s"
  "pending_request_stream_pool (write_to_transport s) = pending_request_stream_pool s"
  "active_streams (write_to_transport s) = active_streams s"
  "settings_acknowledged_flag (write_to_transport s) = settings_acknowledged_flag s"
  "conn_lost_errors (write_to_transport s) = conn_lost_errors s"
  "certificate (write_to_transport s) = certificate s"
  "ip_address (write_to_transport s) = ip_address s"
  "effects (write_to_transport s) = effects s @ [ResetTimeout, ConnDataToSend, TransportWrite]"
  by (simp_all add: write_to_transport_def)

lemma lose_connection_with_error_fields [simp]:
  "conn_lost_deferred (lose_connection_with_error s es) = conn_lost_deferred s"
  "conn (lose_connection_with_error s es) = conn s"
  "transport (lose_connection_with_error s es) = transport s"
  "stream_id_generator (lose_connection_with_error s es) = stream_id_generator s"
  "objects (lose_connection_with_error s es) = objects s"
  "streams (lose_connection_with_error s es) = streams s"
  "pending_request_stream_pool (lose_connection_with_error s es) = pending_request_stream_pool s"
  "active_streams (lose_connection_with_error s es) = active_streams s"
  "settings_acknowledged_flag (lose_connection_with_error s es) = settings_acknowledged_flag s"
  "conn_lost_errors (lose_connection_with_error s es) = conn_lost_errors s @ es"
  "certificate (lose_connection_with_error s es) = certificate s"
  "ip_address (lose_connection_with_error s es) = ip_address s"
  "effects (lose_connection_with_error s es) = effects s @ [TransportLoseConnection]"
  by (simp_all add: lose_connection_with_error_def)

text \<open>
  C6: on idle timeout the code sent to the peer is \<open>NO_ERROR\<close> exactly when the codec has
  no open outbound stream, no open inbound stream and the session's counter of active
  streams is not positive, and \<open>PROTOCOL_ERROR\<close> otherwise.  In both cases the codec is told
  to close the connection with that code, the output is flushed, the timeout error joins
  the accumulated causes and the transport is asked to drop the connection; registry,
  queue, counter and streams are left for the transport-lost handler.
\<close>

theorem timeoutConnection_termination_code:
  "\<exists>code.
     effects (timeoutConnection s) =
       effects s @ [ConnCloseConnection code, ResetTimeout, ConnDataToSend, TransportWrite,
                    TransportLoseConnection]
     \<and> (code = NO_ERROR) =
         (\<not> (open_outbound_streams (conn s) > 0 \<or> open_inbound_streams (conn s) > 0
              \<or> active_streams s > 0))
     \<and> (code = PROTOCOL_ERROR) =
         (open_outbound_streams (conn s) > 0 \<or> open_inbound_streams (conn s) > 0
          \<or> active_streams s > 0)
     \<and> conn_lost_errors (timeoutConnection s) =
         conn_lost_errors s @ [TimeoutError ''Connection was IDLE for more than 240s'']
     \<and> streams (timeoutConnection s) = streams s
     \<and> objects (timeoutConnection s) = objects s
     \<and> pending_request_stream_pool (timeoutConnection s) = pending_request_stream_pool s
     \<and> active_streams (timeoutConnection s) = active_streams s"
  by (simp add: timeoutConnection_def Let_def)

lemma dataReceived_flushes:
  "\<exists>pre. effects (outcome_state (dataReceived receive s d)) =
           pre @ [ResetTimeout, ConnDataToSend, TransportWrite]"
  by (auto simp: dataReceived_def outcome_state_def Let_def split: prod.splits sum.splits)

text \<open>
  C7: when the codec raises a protocol violation on the received bytes, \<open>dataReceived\<close>
  returns normally with that error appended to the accumulated causes and the transport
  asked to drop the connection, and then flushes; and whatever happens (events
  dispatched, violation caught, another exception propagating) the last thing done is the
  flush of the codec's pending bytes to the transport.
\<close>

theorem dataReceived_protocol_violation:
  "(receive (conn s) d = (c, Inl (ProtocolError m)) \<longrightarrow>
      (\<exists>s'. dataReceived receive s d = Inr s'
         \<and> conn_lost_errors s' = conn_lost_errors s @ [ProtocolError m]
         \<and> effects s' = effects s @ [ResetTimeout, TransportLoseConnection,
                                       ResetTimeout, ConnDataToSend, TransportWrite]))
   \<and> (\<exists>pre. effects (outcome_state (dataReceived receive s d)) =
           pre @ [ResetTimeout, ConnDataToSend, TransportWrite])"
  using dataReceived_flushes [of receive s d]
  by (auto simp: dataReceived_def Let_def)

theorem dataReceived_protocol_violation_witness:
  "violating_codec (conn three_ready) ''data'' = (conn three_ready, Inl (ProtocolError ''bad frame''))
   \<and> (\<exists>s'. dataReceived violating_codec three_ready ''data'' = Inr s'
         \<and> conn_lost_errors s' = [ProtocolError ''bad frame'']
         \<and> effects s' = [ResetTimeout, TransportLoseConnection,
                          ResetTimeout, ConnDataToSend, TransportWrite])"
proof -
  have e: "effects three_ready = []" "conn_lost_errors three_ready = []"
    by (simp_all add: example_defs spr_stop)
  have v: "violating_codec (conn three_ready) ''data'' = (conn three_ready, Inl (ProtocolError ''bad frame''))"
    by (simp add: violating_codec_def)
  show ?thesis
    using dataReceived_protocol_violation [of violating_codec three_ready "''data''" "conn three_ready" "''bad frame''"] v
    by (simp add: e)
qed

section \<open>Window updates\<close>

lemma window_update_all_fields [simp]:
  "conn_lost_deferred (window_update_all rs s) = conn_lost_deferred s"
  "conn (window_update_all rs s) = conn s"
  "transport (window_update_all rs s) = transport s"
  "stream_id_generator (window_update_all rs s) = stream_id_generator s"
  "streams (window_update_all rs s) = streams s"
  "pending_request_stream_pool (window_update_all rs s) = pending_request_stream_pool s"
  "active_streams (window_update_all rs s) = active_streams s"
  "settings_acknowledged_flag (window_update_all rs s) = settings_acknowledged_flag s"
  "conn_lost_errors (window_update_all rs s) = conn_lost_errors s"
  "certificate (window_update_all rs s) = certificate s"
  "ip_address (window_update_all rs s) = ip_address s"
  "effects (window_update_all rs s) = effects s"
  "length (objects (window_update_all rs s)) = length (objects s)"
  by (induction rs arbitrary: s; simp)+

lemma window_update_all_nth:
  "i < length (objects s) \<Longrightarrow>
   objects (window_update_all rs s) ! i =
     (receive_window_update ^^ count_list rs i) (objects s ! i)"
proof (induction rs arbitrary: s)
  case Nil
  then show ?case by simp
next
  case (Cons r rs)
  then show ?case
    by (simp add: update_object_nth' funpow_swap1)
qed

text \<open>
  C10: a \<open>WindowUpdated\<close> event with stream id 0 calls \<open>receive_window_update\<close> on every
  stream of the registry (once for each entry of the registry that holds it, and on no
  other stream), whereas an event with another id calls it on the one stream registered
  under that id and on no other; for an id that is not registered the lookup raises
  \<open>KeyError\<close> and no stream is called.
\<close>

theorem window_updated_targets:
  "(\<exists>s'. window_updated s 0 = Inr s'
        \<and> length (objects s') = length (objects s)
        \<and> (\<forall>i < length (objects s).
              objects s' ! i =
                (receive_window_update ^^ count_list (map snd (streams s)) i) (objects s ! i)))
   \<and> (sid \<noteq> 0 \<longrightarrow> map_of (streams s) sid = Some r \<longrightarrow>
        (\<exists>s'. window_updated s sid = Inr s'
           \<and> length (objects s') = length (objects s)
           \<and> (\<forall>i < length (objects s).
                 objects s' ! i =
                   (if i = r then receive_window_update (objects s ! i) else objects s ! i))))
   \<and> (sid \<noteq> 0 \<longrightarrow> map_of (streams s) sid = None \<longrightarrow>
        window_updated s sid = Inl (KeyError sid, s))"
  by (simp add: window_updated_def window_update_all_nth update_object_nth')

theorem window_updated_targets_witness:
  "map_of (streams three_ready) 3 = Some 1
   \<and> map snd (streams three_ready) = [0, 1, 2]
   \<and> (\<exists>s'. window_updated three_ready 0 = Inr s'
        \<and> received (objects s' ! 0) = [WindowUpdate]
        \<and> received (objects s' ! 1) = [WindowUpdate]
        \<and> received (objects s' ! 2) = [WindowUpdate])
   \<and> (\<exists>s'. window_updated three_ready 3 = Inr s'
        \<and> received (objects s' ! 0) = []
        \<and> received (objects s' ! 1) = [WindowUpdate]
        \<and> received (objects s' ! 2) = [])
   \<and> map_of (streams three_ready) 4 = None
   \<and> window_updated three_ready 4 = Inl (KeyError 4, three_ready)"
proof -
  have st: "streams three_ready = [(1, 0), (3, 1), (5, 2)]"
    by (simp add: example_defs spr_stop)
  have o: "objects three_ready = [new_Stream 1 ''a'', new_Stream 3 ''b'', new_Stream 5 ''c'']"
    by (simp add: example_defs spr_stop)
  have m3: "map_of (streams three_ready) 3 = Some 1" and m4: "map_of (streams three_ready) 4 = None"
    by (simp_all add: st)
  note th = window_updated_targets [of three_ready 3 1]
  from th obtain s0 where a0: "window_updated three_ready 0 = Inr s0"
    and b0: "\<forall>i < length (objects three_ready).
              objects s0 ! i =
                (receive_window_update ^^ count_list (map snd (streams three_ready)) i)
                  (objects three_ready ! i)"
    by blast
  from th m3 obtain s3 where a3: "window_updated three_ready 3 = Inr s3"
    and b3: "\<forall>i < length (objects three_ready).
              objects s3 ! i =
                (if i = 1 then receive_window_update (objects three_ready ! i)
                 else objects three_ready ! i)"
    by auto
  have r0: "received (objects s0 ! 0) = [WindowUpdate]"
      "received (objects s0 ! 1) = [WindowUpdate]"
      "received (objects s0 ! 2) = [WindowUpdate]"
    using b0 [rule_format, of 0] b0 [rule_format, of 1] b0 [rule_format, of 2]
    by (simp_all add: st o new_Stream_def receive_window_update_def)
  have r3: "received (objects s3 ! 0) = []"
      "received (objects s3 ! 1) = [WindowUpdate]"
      "received (objects s3 ! 2) = []"
    using b3 [rule_format, of 0] b3 [rule_format, of 1] b3 [rule_format, of 2]
    by (simp_all add: o new_Stream_def receive_window_update_def)
  have k: "window_updated three_ready 4 = Inl (KeyError 4, three_ready)"
    using window_updated_targets [of three_ready 4 1] m4 by simp
  show ?thesis
    using a0 r0 a3 r3 k m3 m4 by (simp add: st)
qed

section \<open>Events for a stream that is not registered\<close>

lemma pop_stream_unknown:
  "map_of (streams s) sid = None \<Longrightarrow> pop_stream s sid = Inl (KeyError sid, s)"
  by (simp add: pop_stream_def)

lemma handle_event_unknown:
  "event_stream_id ev = Some sid \<Longrightarrow> map_of (streams s) sid = None \<Longrightarrow>
   ev \<noteq> WindowUpdated 0 \<Longrightarrow> handle_event s ev = Inl (KeyError sid, s)"
  by (cases ev)
     (auto simp: data_received_def response_received_def stream_ended_def stream_reset_def
        window_updated_def pop_stream_unknown)

text \<open>
  C2, as the code has it: an event of the codec that names a stream id which is not in the
  registry (\<open>DataReceived\<close>, \<open>ResponseReceived\<close>, \<open>StreamEnded\<close>, \<open>StreamReset\<close>, or
  \<open>WindowUpdated\<close> with an id other than 0) is neither logged nor ignored: its handler
  raises \<open>KeyError\<close> for that id before it changes anything, the loop of \<open>_handle_events\<close>
  ends there, so the later events of the batch are not dispatched, and \<open>dataReceived\<close>,
  which catches \<open>ProtocolError\<close> only, lets the exception out after its final flush.  The
  session is as it was but for the codec's new state and the log of the flush.
\<close>

theorem unknown_stream_event_raises_KeyError:
  assumes "event_stream_id ev = Some sid"
    and "map_of (streams s) sid = None"
    and "ev \<noteq> WindowUpdated 0"
  shows "handle_event s ev = Inl (KeyError sid, s)
     \<and> handle_events s (ev # evs) = Inl (KeyError sid, s)
     \<and> (receive (conn s) d = (c, Inr (ev # evs)) \<longrightarrow>
         dataReceived receive s d =
           Inl (KeyError sid,
                s\<lparr>effects := effects s @ [ResetTimeout, ResetTimeout, ConnDataToSend, TransportWrite],
                  conn := c\<rparr>))"
proof -
  let ?s1 = "s\<lparr>effects := effects s @ [ResetTimeout], conn := c\<rparr>"
  have h: "handle_event s ev = Inl (KeyError sid, s)"
    by (rule handle_event_unknown [OF assms])
  have "map_of (streams ?s1) sid = None"
    using assms(2) by simp
  then have h1: "handle_event ?s1 ev = Inl (KeyError sid, ?s1)"
    by (rule handle_event_unknown [OF assms(1) _ assms(3)])
  show ?thesis
    using h h1 by (simp add: dataReceived_def Let_def write_to_transport_def)
qed

theorem unknown_stream_event_raises_KeyError_witness:
  "event_stream_id (DataReceived 7 ''x'' 1) = Some 7
   \<and> map_of (streams three_ready) 7 = None
   \<and> DataReceived 7 ''x'' 1 \<noteq> WindowUpdated 0
   \<and> unknown_stream_codec (conn three_ready) ''data''
       = (conn three_ready, Inr [DataReceived 7 ''x'' 1, SettingsAcknowledged])
   \<and> handle_event three_ready (DataReceived 7 ''x'' 1) = Inl (KeyError 7, three_ready)
   \<and> handle_events three_ready [DataReceived 7 ''x'' 1, SettingsAcknowledged]
       = Inl (KeyError 7, three_ready)
   \<and> dataReceived unknown_stream_codec three_ready ''data'' =
         Inl (KeyError 7,
              three_ready\<lparr>effects := [ResetTimeout, ResetTimeout, ConnDataToSend, TransportWrite]\<rparr>)"
proof -
  have st: "streams three_ready = [(1, 0), (3, 1), (5, 2)]"
    by (simp add: example_defs spr_stop)
  have e: "effects three_ready = []"
    by (simp add: example_defs spr_stop)
  have m: "map_of (streams three_ready) 7 = None"
    by (simp add: st)
  have v: "unknown_stream_codec (conn three_ready) ''data''
       = (conn three_ready, Inr [DataReceived 7 ''x'' 1, SettingsAcknowledged])"
    by (simp add: unknown_stream_codec_def)
  show ?thesis
    using unknown_stream_event_raises_KeyError [of "DataReceived 7 ''x'' 1" 7 three_ready
        "[SettingsAcknowledged]" unknown_stream_codec "''data''" "conn three_ready"] m v
    by (simp add: e)
qed

text \<open>
  C2, as the claim states it, fails: on a fresh session the codec produces
  \<open>DataReceived\<close> for stream 7 followed by \<open>SettingsAcknowledged\<close>; the dispatch raises
  \<open>KeyError\<close>, which leaves \<open>dataReceived\<close>, and the settings are never acknowledged.
\<close>

theorem unknown_stream_event_crashes_dispatch:
  "dataReceived unknown_stream_codec (init None example_conn example_transport) ''data''
     = Inl (KeyError 7,
            (init None example_conn example_transport)
              \<lparr>effects := [ResetTimeout, ResetTimeout, ConnDataToSend, TransportWrite]\<rparr>)
   \<and> handle_event (init None example_conn example_transport) (DataReceived 7 ''x'' 1)
     = Inl (KeyError 7, init None example_conn example_transport)"
  by (simp add: dataReceived_def unknown_stream_codec_def init_def data_received_def Let_def
      write_to_transport_def)

section \<open>Losing the connection\<close>

lemma close_on_connection_lost_idem [simp]:
  "close_on_connection_lost (close_on_connection_lost st) = close_on_connection_lost st"
  by (simp add: close_on_connection_lost_def close_def)

lemma close_streams_fields [simp]:
  "conn_lost_deferred (close_streams rs s) = conn_lost_deferred s"
  "conn (close_streams rs s) = conn s"
  "transport (close_streams rs s) = transport s"
  "stream_id_generator (close_streams rs s) = stream_id_generator s"
  "streams (close_streams rs s) = streams s"
  "pending_request_stream_pool (close_streams rs s) = pending_request_stream_pool s"
  "active_streams (close_streams rs s) = active_streams s"
  "settings_acknowledged_flag (close_streams rs s) = settings_acknowledged_flag s"
  "conn_lost_errors (close_streams rs s) = conn_lost_errors s"
  "certificate (close_streams rs s) = certificate s"
  "ip_address (close_streams rs s) = ip_address s"
  "effects (close_streams rs s) = effects s"
  "length (objects (close_streams rs s)) = length (objects s)"
  by (induction rs arbitrary: s; simp)+

lemma close_streams_nth:
  "objects (close_streams rs s) ! i =
     (if i \<in> set rs \<and> i < length (objects s)
      then close_on_connection_lost (objects s ! i) else objects s ! i)"
  by (induction rs arbitrary: s) (auto simp: update_object_nth')

lemma connectionLost_unfired:
  assumes "deferred_unfired s"
  shows "connectionLost s reason =
     Inr ((close_streams (registered s)
            (s\<lparr>effects := effects s @ [SetTimeout None],
               conn_lost_errors := conn_lost_errors s @ [reason],
               conn_lost_deferred :=
                 map_option (\<lambda>d. d\<lparr>called := True, result := Some ConnLostErrors\<rparr>)
                   (conn_lost_deferred s)\<rparr>))
          \<lparr>active_streams := active_streams s - int (length (streams s)),
           streams := [], pending_request_stream_pool := [],
           effects := effects s @ [SetTimeout None, ConnCloseConnection NO_ERROR]\<rparr>)"
  using assms
  by (cases "conn_lost_deferred s")
     (auto simp: connectionLost_def deferred_unfired_def Let_def callback_def
        check_connectionDone_def registered_def)

lemma connectionLost_fired:
  assumes "\<not> deferred_unfired s"
  shows "connectionLost s reason =
     Inl (AlreadyCalledError,
          s\<lparr>effects := effects s @ [SetTimeout None],
            conn_lost_errors := conn_lost_errors s @ [reason]\<rparr>)"
  using assms
  by (cases "conn_lost_deferred s")
     (auto simp: connectionLost_def deferred_unfired_def Let_def callback_def
        check_connectionDone_def)

lemma connectionLost_new_fulfilments:
  assumes "registry_open s" and "r < length (objects s)"
  shows "new_fulfilments s
           (close_streams (registered s) (s\<lparr>effects := e, conn_lost_errors := errs, conn_lost_deferred := d\<rparr>)
              \<lparr>active_streams := a, streams := [], pending_request_stream_pool := [], effects := e'\<rparr>) r =
         (if r \<in> set (registered s)
          then (if request_sent (objects s ! r)
                then [(CONNECTION_LOST, Some ConnLostErrors)] else [(INACTIVE, None)])
          else [])"
  using assms
  by (auto simp: new_fulfilments_def close_streams_nth registry_open_def registered_def
      close_on_connection_lost_def close_def)

text \<open>
  C3: when the connection is torn down (the connection-lost deferred, if there is one,
  has not fired) in a session whose registered streams are open, \<open>connectionLost\<close>
  returns normally; the reason, whichever it is, joins the accumulated causes; the
  completion of every registered stream receives exactly one fulfilment,
  \<open>CONNECTION_LOST\<close> carrying the list of accumulated causes if the stream had sent its
  request and \<open>INACTIVE\<close> without causes if it had not, and no other stream receives any;
  so the streams resolved with \<open>CONNECTION_LOST\<close> are exactly the \<open>K\<close> registered streams
  that sent their request, those resolved with \<open>INACTIVE\<close> exactly the \<open>M\<close> that did
  not, and the registry and the pending queue are empty afterwards.
\<close>

theorem connectionLost_closes_every_registered_stream:
  assumes "deferred_unfired s" and "registry_open s"
  shows "\<exists>s'. connectionLost s reason = Inr s'
     \<and> streams s' = [] \<and> pending_request_stream_pool s' = []
     \<and> deref s' ConnLostErrors = conn_lost_errors s @ [reason]
     \<and> length (objects s') = length (objects s)
     \<and> (\<forall>r < length (objects s).
           new_fulfilments s s' r =
             (if r \<in> set (registered s)
              then (if request_sent (objects s ! r)
                    then [(CONNECTION_LOST, Some ConnLostErrors)] else [(INACTIVE, None)])
              else []))
     \<and> resolved_with s s' (CONNECTION_LOST, Some ConnLostErrors) = sent_streams s
     \<and> resolved_with s s' (INACTIVE, None) = unsent_streams s"
proof -
  let ?s' = "(close_streams (registered s)
            (s\<lparr>effects := effects s @ [SetTimeout None],
               conn_lost_errors := conn_lost_errors s @ [reason],
               conn_lost_deferred :=
                 map_option (\<lambda>d. d\<lparr>called := True, result := Some ConnLostErrors\<rparr>)
                   (conn_lost_deferred s)\<rparr>))
          \<lparr>active_streams := active_streams s - int (length (streams s)),
           streams := [], pending_request_stream_pool := [],
           effects := effects s @ [SetTimeout None, ConnCloseConnection NO_ERROR]\<rparr>"
  have eq: "connectionLost s reason = Inr ?s'"
    by (rule connectionLost_unfired [OF assms(1)])
  have nf: "\<forall>r < length (objects s).
           new_fulfilments s ?s' r =
             (if r \<in> set (registered s)
              then (if request_sent (objects s ! r)
                    then [(CONNECTION_LOST, Some ConnLostErrors)] else [(INACTIVE, None)])
              else [])"
    using connectionLost_new_fulfilments [OF assms(2)] by blast
  have k: "resolved_with s ?s' (CONNECTION_LOST, Some ConnLostErrors) = sent_streams s"
    unfolding resolved_with_def sent_streams_def
    by (rule filter_cong [OF refl]) (use nf in auto)
  have m: "resolved_with s ?s' (INACTIVE, None) = unsent_streams s"
    unfolding resolved_with_def unsent_streams_def
    by (rule filter_cong [OF refl]) (use nf in auto)
  have fr: "streams ?s' = []" "pending_request_stream_pool ?s' = []"
      "deref ?s' ConnLostErrors = conn_lost_errors s @ [reason]"
      "length (objects ?s') = length (objects s)"
    by (simp_all add: deref_def)
  show ?thesis
    using eq nf k m fr by blast
qed

lemma two_sent_one_queued_fields:
  "objects two_sent_one_queued =
     [(new_Stream 1 ''a'')\<lparr>request_sent := True\<rparr>, (new_Stream 3 ''b'')\<lparr>request_sent := True\<rparr>,
      new_Stream 5 ''c'']"
  "streams two_sent_one_queued = [(1, 0), (3, 1), (5, 2)]"
  "pending_request_stream_pool two_sent_one_queued = [2]"
  "active_streams two_sent_one_queued = 2"
  "conn_lost_errors two_sent_one_queued = []"
  "conn_lost_deferred two_sent_one_queued = Some example_deferred"
  "effects two_sent_one_queued = [ConnOpenStream 1, ConnOpenStream 3]"
  by (simp_all add: two_sent_one_queued_def settings_acknowledged_def example_defs
      send_pending_requests.simps stream_initiate_request_def update_object_def
      initiate_request_def Let_def)

lemma upt_3: "[0..<3] = [0, 1, 2]"
  by (simp add: upt_rec)

theorem connectionLost_closes_every_registered_stream_witness:
  "deferred_unfired two_sent_one_queued \<and> registry_open two_sent_one_queued
   \<and> sent_streams two_sent_one_queued = [0, 1]
   \<and> unsent_streams two_sent_one_queued = [2]
   \<and> (\<exists>s'. connectionLost two_sent_one_queued ConnectionDone = Inr s'
         \<and> streams s' = [] \<and> pending_request_stream_pool s' = []
         \<and> deref s' ConnLostErrors = [ConnectionDone]
         \<and> resolved_with two_sent_one_queued s' (CONNECTION_LOST, Some ConnLostErrors) = [0, 1]
         \<and> resolved_with two_sent_one_queued s' (INACTIVE, None) = [2])"
proof -
  note f = two_sent_one_queued_fields
  have d: "deferred_unfired two_sent_one_queued"
    by (simp add: deferred_unfired_def f example_deferred_def)
  have o: "registry_open two_sent_one_queued"
    by (simp add: registry_open_def registered_def f new_Stream_def)
  have k: "sent_streams two_sent_one_queued = [0, 1]"
    by (simp add: sent_streams_def registered_def f new_Stream_def upt_3)
  have m: "unsent_streams two_sent_one_queued = [2]"
    by (simp add: unsent_streams_def registered_def f new_Stream_def upt_3)
  show ?thesis
    using connectionLost_closes_every_registered_stream [OF d o, of ConnectionDone]
    by (simp add: d o k m f) blast
qed






section \<open>Stream ids\<close>

lemma pop_stream_generator:
  "pop_stream s sid = Inr (r, s') \<Longrightarrow> stream_id_generator s' = stream_id_generator s"
  by (auto simp: pop_stream_def split: option.splits)

lemma handle_event_generator:
  "stream_id_generator (outcome_state (handle_event s ev)) = stream_id_generator s"
  by (cases ev)
     (auto simp: outcome_state_def connection_terminated_def data_received_def
        response_received_def stream_ended_def stream_reset_def window_updated_def
        settings_acknowledged_def Let_def pop_stream_def
        split: option.splits sum.splits prod.splits)

lemma handle_events_generator:
  "stream_id_generator (outcome_state (handle_events s evs)) = stream_id_generator s"
proof (induction evs arbitrary: s)
  case Nil
  then show ?case by (simp add: outcome_state_def)
next
  case (Cons ev evs)
  show ?case
  proof (cases "handle_event s ev")
    case (Inl x)
    then show ?thesis
      using handle_event_generator [of s ev] by simp
  next
    case (Inr s1)
    then show ?thesis
      using handle_event_generator [of s ev] Cons.IH [of s1] by (simp add: outcome_state_def)
  qed
qed

lemma dataReceived_generator:
  "stream_id_generator (outcome_state (dataReceived receive s d)) = stream_id_generator s"
proof -
  obtain c produced where r: "receive (conn (s\<lparr>effects := effects s @ [ResetTimeout]\<rparr>)) d = (c, produced)"
    by (cases "receive (conn (s\<lparr>effects := effects s @ [ResetTimeout]\<rparr>)) d")
  show ?thesis
  proof (cases produced)
    case (Inl e)
    then show ?thesis
      using r by (simp add: dataReceived_def Let_def outcome_state_def)
  next
    case (Inr events)
    then show ?thesis
      using r handle_events_generator [of "s\<lparr>effects := effects s @ [ResetTimeout], conn := c\<rparr>" events]
      by (auto simp: dataReceived_def Let_def outcome_state_def split: sum.splits)
  qed
qed

lemma connectionLost_generator:
  "stream_id_generator (outcome_state (connectionLost s reason)) = stream_id_generator s"
  by (cases "deferred_unfired s")
     (simp_all add: connectionLost_unfired connectionLost_fired outcome_state_def)

lemma timeoutConnection_generator:
  "stream_id_generator (timeoutConnection s) = stream_id_generator s"
  by (simp add: timeoutConnection_def Let_def)

lemma request_allocates:
  "request s (RequestObject q) =
     Inr (length (objects s),
          send_pending_requests
            (s\<lparr>stream_id_generator := stream_id_generator s + 2,
               objects := objects s @ [new_Stream (stream_id_generator s) q],
               streams := AList.update (stream_id_generator s) (length (objects s)) (streams s),
               pending_request_stream_pool := pending_request_stream_pool s @ [length (objects s)]\<rparr>))"
  by (simp add: request_def new_stream_def Let_def)

lemma perform_generator:
  "stream_id_generator (perform receive s c) =
     (case c of CallRequest (RequestObject q) \<Rightarrow> stream_id_generator s + 2
      | _ \<Rightarrow> stream_id_generator s)"
proof (cases c)
  case (CallRequest obj)
  then show ?thesis
    by (cases obj) (simp_all add: request_allocates state_after_def, simp add: request_def)
qed (simp_all add: dataReceived_generator connectionLost_generator timeoutConnection_generator)

lemma allocated_ids_from:
  "allocated_ids receive s calls =
     map (\<lambda>k. stream_id_generator s + 2 * int k) [0..<length (allocated_ids receive s calls)]"
proof (induction receive s calls rule: allocated_ids.induct)
  case (1 receive s)
  then show ?case by simp
next
  case (2 receive s obj calls)
  show ?case
  proof (cases obj)
    case (RequestObject q)
    let ?s' = "perform receive s (CallRequest obj)"
    have g: "stream_id_generator ?s' = stream_id_generator s + 2"
      using perform_generator [of receive s "CallRequest obj"] RequestObject by simp
    have ih: "allocated_ids receive ?s' calls =
        map (\<lambda>k. stream_id_generator ?s' + 2 * int k) [0..<length (allocated_ids receive ?s' calls)]"
      using "2.IH"(2) [of "(length (objects s), ?s')" "length (objects s)" ?s'] RequestObject
      by (simp add: request_allocates state_after_def)
    have hd: "allocated_ids receive s (CallRequest obj # calls) =
        stream_id_generator s # allocated_ids receive ?s' calls"
      using RequestObject
      by (simp add: request_allocates state_after_def new_Stream_def)
    have "map (\<lambda>k. stream_id_generator s + 2 * int k) [0..<Suc (length (allocated_ids receive ?s' calls))]
        = stream_id_generator s # map (\<lambda>k. stream_id_generator ?s' + 2 * int k) [0..<length (allocated_ids receive ?s' calls)]"
      using g by (simp add: upt_conv_Cons map_Suc_upt [symmetric] del: upt_Suc)
    then show ?thesis
      using hd ih by simp
  next
    case (OtherObject n)
    then show ?thesis
      using "2.IH"(1) by (simp add: request_def state_after_def)
  qed
qed (simp_all add: dataReceived_generator timeoutConnection_generator connectionLost_generator)


lemma allocated_ids_length:
  "length (allocated_ids receive s calls) = length (filter submits calls)"
proof (induction receive s calls rule: allocated_ids.induct)
  case (2 receive s obj calls)
  show ?case
  proof (cases obj)
    case (RequestObject q)
    then show ?thesis
      using "2.IH"(2) [of "(length (objects s), perform receive s (CallRequest obj))"
          "length (objects s)" "perform receive s (CallRequest obj)"]
      by (simp add: request_allocates state_after_def)
  next
    case (OtherObject n)
    then show ?thesis
      using "2.IH"(1) by (simp add: request_def state_after_def)
  qed
qed simp_all

text \<open>
  C8: on one connection, whatever calls are made between them (bytes received, timeout,
  loss of the connection, submissions that are refused), the streams that the submitted
  requests create receive the ids 1, 3, 5, ... in the order of submission: the stream
  created by the \<open>k\<close>-th request (counting from 0) has id \<open>2k + 1\<close>, there are as many ids
  as requests submitted, and no id occurs twice.
\<close>

theorem stream_ids_are_the_odd_numbers:
  "allocated_ids receive (init d c t) calls =
     map (\<lambda>k. 2 * int k + 1) [0..<length (filter submits calls)]
   \<and> distinct (allocated_ids receive (init d c t) calls)"
proof -
  have a: "allocated_ids receive (init d c t) calls =
     map (\<lambda>k. 2 * int k + 1) [0..<length (filter submits calls)]"
    using allocated_ids_from [of receive "init d c t" calls]
    by (simp add: allocated_ids_length init_def add.commute)
  have "inj_on (\<lambda>k. 2 * int k + 1) (set [0..<length (filter submits calls)])"
    by (simp add: inj_on_def)
  then have "distinct (map (\<lambda>k. 2 * int k + 1) [0..<length (filter submits calls)])"
    by (simp add: distinct_map)
  with a show ?thesis by simp
qed

theorem stream_ids_are_the_odd_numbers_witness:
  "allocated_ids acknowledging_codec (init None example_conn example_transport)
     [CallRequest (RequestObject ''a''), CallRequest (OtherObject ''str''),
      CallDataReceived ''settings'', CallRequest (RequestObject ''b''),
      CallConnectionLost ConnectionDone, CallRequest (RequestObject ''c'')]
   = [1, 3, 5]"
  using stream_ids_are_the_odd_numbers [of acknowledging_codec None example_conn example_transport
     "[CallRequest (RequestObject ''a''), CallRequest (OtherObject ''str''),
      CallDataReceived ''settings'', CallRequest (RequestObject ''b''),
      CallConnectionLost ConnectionDone, CallRequest (RequestObject ''c'')]"]
  by (simp add: upt_3)

section \<open>The counter of active streams\<close>

text \<open>
  C1 at the input where the code departs from it: one request is submitted before the
  settings are acknowledged, so the stream is registered and queued but not admitted and
  the counter is 0; then the connection is lost.  \<open>connectionLost\<close> subtracts the size of
  the registry, which counts the stream that was never admitted, and the counter is -1
  while no stream is registered.
\<close>

theorem connectionLost_with_queued_stream_makes_counter_negative:
  "active_streams one_queued = 0
   \<and> streams one_queued = [(1, 0)]
   \<and> pending_request_stream_pool one_queued = [0]
   \<and> \<not> request_sent (objects one_queued ! 0)
   \<and> active_streams (outcome_state (connectionLost one_queued ConnectionDone)) = - 1
   \<and> streams (outcome_state (connectionLost one_queued ConnectionDone)) = []"
proof -
  have f: "active_streams one_queued = 0" "streams one_queued = [(1, 0)]"
    "pending_request_stream_pool one_queued = [0]"
    "objects one_queued = [new_Stream 1 ''a'']"
    "conn_lost_deferred one_queued = Some example_deferred"
    by (simp_all add: one_queued_def example_defs spr_stop)
  have d: "deferred_unfired one_queued"
    by (simp add: deferred_unfired_def f example_deferred_def)
  show ?thesis
    by (simp add: f connectionLost_unfired [OF d] outcome_state_def new_Stream_def)
qed

section \<open>Invariants of the states a session reaches\<close>

lemma registry_sound_cong:
  assumes "registry_sound s"
    and "streams s' = streams s"
    and "length (objects s') = length (objects s)"
    and "\<And>i. i \<in> set (registered s) \<Longrightarrow> close_reason (objects s' ! i) = close_reason (objects s ! i)"
  shows "registry_sound s'"
  using assms by (auto simp: registry_sound_def registry_open_def registered_def)

lemma stream_method_close_reason [simp]:
  "close_reason (initiate_request st) = close_reason st"
  "close_reason (receive_headers st hs) = close_reason st"
  "close_reason (receive_data st d n) = close_reason st"
  "close_reason (receive_window_update st) = close_reason st"
  by (simp_all add: initiate_request_def receive_headers_def receive_data_def
      receive_window_update_def)

lemma update_object_sound:
  "registry_sound s \<Longrightarrow> (\<And>st. close_reason (f st) = close_reason st) \<Longrightarrow>
   registry_sound (update_object s r f)"
  by (erule registry_sound_cong) (simp_all add: update_object_nth')

lemma update_object_sound_unregistered:
  "registry_sound s \<Longrightarrow> r \<notin> set (registered s) \<Longrightarrow> registry_sound (update_object s r f)"
  by (erule registry_sound_cong) (auto simp: update_object_nth')

lemma send_pending_requests_sound:
  "registry_sound s \<Longrightarrow> registry_sound (send_pending_requests s)"
  by (erule registry_sound_cong) (simp_all add: spr_objects)

lemma window_update_all_sound:
  "registry_sound s \<Longrightarrow> registry_sound (window_update_all rs s)"
  by (induction rs arbitrary: s) (simp_all add: update_object_sound)

lemma snd_update_subset:
  "set (map snd (AList.update k v al)) \<subseteq> insert v (set (map snd al))"
  by (induction al) auto

lemma distinct_snd_update:
  "distinct (map snd al) \<Longrightarrow> v \<notin> set (map snd al) \<Longrightarrow> distinct (map snd (AList.update k v al))"
proof (induction al)
  case Nil
  then show ?case by simp
next
  case (Cons p al)
  then show ?case
    using snd_update_subset [of k v al] by (cases p) auto
qed

lemma snd_delete_subset:
  "set (map snd (AList.delete k al)) \<subseteq> set (map snd al)"
  by (induction al) auto

lemma set_delete_subset:
  "set (AList.delete k al) \<subseteq> set al"
  by (induction al) auto

lemma distinct_snd_delete:
  "distinct (map snd al) \<Longrightarrow> distinct (map snd (AList.delete k al))"
proof (induction al)
  case Nil
  then show ?case by simp
next
  case (Cons p al)
  then show ?case
    using snd_delete_subset [of k al] by (cases p) auto
qed

lemma popped_not_registered:
  "distinct (map snd al) \<Longrightarrow> map_of al k = Some r \<Longrightarrow> r \<notin> set (map snd (AList.delete k al))"
proof (induction al)
  case Nil
  then show ?case by simp
next
  case (Cons p al)
  then show ?case
    using snd_delete_subset [of k al]
    by (cases p) (force split: if_splits dest: map_of_SomeD)
qed


lemma init_sound: "registry_sound (init d c t)"
  by (simp add: registry_sound_def registry_open_def registered_def init_def)

lemma new_stream_sound:
  assumes "registry_sound s"
  shows "registry_sound
           (s\<lparr>stream_id_generator := g,
              objects := objects s @ [new_Stream sid q],
              streams := AList.update k (length (objects s)) (streams s),
              pending_request_stream_pool := p\<rparr>)"
proof -
  have old: "\<forall>r \<in> set (map snd (streams s)). r < length (objects s) \<and> close_reason (objects s ! r) = None"
    and dist: "distinct (map snd (streams s))"
    and keys: "distinct (map fst (streams s))"
    using assms by (simp_all add: registry_sound_def registry_open_def registered_def)
  from old have fresh: "length (objects s) \<notin> set (map snd (streams s))"
    by auto
  have d: "distinct (map snd (AList.update k (length (objects s)) (streams s)))"
    by (rule distinct_snd_update [OF dist fresh])
  have "\<forall>r \<in> set (map snd (AList.update k (length (objects s)) (streams s))).
          r < length (objects s @ [new_Stream sid q])
          \<and> close_reason ((objects s @ [new_Stream sid q]) ! r) = None"
  proof
    fix r assume "r \<in> set (map snd (AList.update k (length (objects s)) (streams s)))"
    then have "r = length (objects s) \<or> r \<in> set (map snd (streams s))"
      using snd_update_subset [of k "length (objects s)" "streams s"] by auto
    then show "r < length (objects s @ [new_Stream sid q])
          \<and> close_reason ((objects s @ [new_Stream sid q]) ! r) = None"
      using old by (auto simp: nth_append new_Stream_def)
  qed
  with d distinct_update [OF keys] show ?thesis
    by (simp add: registry_sound_def registry_open_def registered_def)
qed

lemma request_sound:
  "registry_sound s \<Longrightarrow> registry_sound (state_after (request s obj))"
  by (cases obj)
     (simp_all add: request_allocates state_after_def send_pending_requests_sound new_stream_sound,
      simp add: request_def)

lemma pop_stream_sound:
  assumes "pop_stream s sid = Inr (r, s1)" and "registry_sound s"
  shows "registry_sound s1 \<and> r \<notin> set (registered s1)"
proof -
  from assms(1) have m: "map_of (streams s) sid = Some r"
    and s1: "s1 = send_pending_requests
                    (s\<lparr>streams := AList.delete sid (streams s),
                       active_streams := active_streams s - 1\<rparr>)"
    by (auto simp: pop_stream_def split: option.splits)
  have dist: "distinct (map snd (streams s))"
    using assms(2) by (simp add: registry_sound_def registered_def)
  have "registry_sound (s\<lparr>streams := AList.delete sid (streams s),
                       active_streams := active_streams s - 1\<rparr>)"
    using assms(2) set_delete_subset [of sid "streams s"] distinct_snd_delete [OF dist, of sid]
    by (auto simp: registry_sound_def registry_open_def registered_def distinct_delete)
  then have "registry_sound s1"
    unfolding s1 by (rule send_pending_requests_sound)
  moreover have "r \<notin> set (registered s1)"
    using popped_not_registered [OF dist m] by (simp add: s1 registered_def)
  ultimately show ?thesis by simp
qed

lemma handle_event_sound:
  assumes "registry_sound s"
  shows "registry_sound (outcome_state (handle_event s ev))"
proof (cases ev)
  case (ConnectionTerminated c)
  then show ?thesis
    using assms
    by (auto simp: outcome_state_def connection_terminated_def elim!: registry_sound_cong)
next
  case (DataReceived sid d n)
  then show ?thesis
    using assms
    by (auto simp: outcome_state_def data_received_def update_object_sound split: option.splits)
next
  case (ResponseReceived sid hs)
  then show ?thesis
    using assms
    by (auto simp: outcome_state_def response_received_def update_object_sound split: option.splits)
next
  case (StreamEnded sid)
  show ?thesis
  proof (cases "pop_stream s sid")
    case (Inl x)
    then show ?thesis
      using assms StreamEnded
      by (cases x) (auto simp: outcome_state_def stream_ended_def pop_stream_def split: option.splits)
  next
    case (Inr y)
    then obtain r s1 where "pop_stream s sid = Inr (r, s1)" by (cases y) simp
    then show ?thesis
      using pop_stream_sound [OF _ assms, of sid r s1] StreamEnded
      by (simp add: outcome_state_def stream_ended_def update_object_sound_unregistered)
  qed
next
  case (StreamReset sid)
  show ?thesis
  proof (cases "pop_stream s sid")
    case (Inl x)
    then show ?thesis
      using assms StreamReset
      by (cases x) (auto simp: outcome_state_def stream_reset_def pop_stream_def split: option.splits)
  next
    case (Inr y)
    then obtain r s1 where "pop_stream s sid = Inr (r, s1)" by (cases y) simp
    then show ?thesis
      using pop_stream_sound [OF _ assms, of sid r s1] StreamReset
      by (simp add: outcome_state_def stream_reset_def update_object_sound_unregistered)
  qed
next
  case (WindowUpdated sid)
  then show ?thesis
    using assms
    by (auto simp: outcome_state_def window_updated_def update_object_sound
        window_update_all_sound split: option.splits)
next
  case SettingsAcknowledged
  have "registry_sound (send_pending_requests (s\<lparr>settings_acknowledged_flag := True\<rparr>))"
    by (rule send_pending_requests_sound) (rule registry_sound_cong [OF assms], simp_all)
  then show ?thesis
    using SettingsAcknowledged
    by (auto simp: outcome_state_def settings_acknowledged_def Let_def elim!: registry_sound_cong)
next
  case (UnknownFrameReceived f)
  then show ?thesis
    using assms by (auto simp: outcome_state_def elim!: registry_sound_cong)
next
  case (OtherEvent n)
  then show ?thesis
    using assms by (simp add: outcome_state_def)
qed

lemma handle_events_sound:
  "registry_sound s \<Longrightarrow> registry_sound (outcome_state (handle_events s evs))"
proof (induction evs arbitrary: s)
  case Nil
  then show ?case by (simp add: outcome_state_def)
next
  case (Cons ev evs)
  show ?case
  proof (cases "handle_event s ev")
    case (Inl x)
    then show ?thesis
      using handle_event_sound [OF Cons.prems, of ev] by simp
  next
    case (Inr s1)
    then show ?thesis
      using handle_event_sound [OF Cons.prems, of ev] Cons.IH [of s1] by (simp add: outcome_state_def)
  qed
qed


lemma dataReceived_sound:
  assumes "registry_sound s"
  shows "registry_sound (outcome_state (dataReceived receive s d))"
proof -
  obtain c produced where r: "receive (conn (s\<lparr>effects := effects s @ [ResetTimeout]\<rparr>)) d = (c, produced)"
    by (cases "receive (conn (s\<lparr>effects := effects s @ [ResetTimeout]\<rparr>)) d")
  let ?s1 = "s\<lparr>effects := effects s @ [ResetTimeout], conn := c\<rparr>"
  have s1: "registry_sound ?s1"
    by (rule registry_sound_cong [OF assms]) simp_all
  show ?thesis
  proof (cases produced)
    case (Inl e)
    then show ?thesis
      using r s1
      by (auto simp: dataReceived_def Let_def outcome_state_def elim!: registry_sound_cong)
  next
    case (Inr events)
    have "registry_sound (outcome_state (handle_events ?s1 events))"
      by (rule handle_events_sound [OF s1])
    then show ?thesis
      using r Inr
      by (auto simp: dataReceived_def Let_def outcome_state_def split: sum.splits
          elim!: registry_sound_cong)
  qed
qed

lemma timeoutConnection_sound:
  "registry_sound s \<Longrightarrow> registry_sound (timeoutConnection s)"
  by (erule registry_sound_cong) (simp_all add: timeoutConnection_def Let_def)

lemma connectionLost_sound:
  assumes "registry_sound s"
  shows "registry_sound (outcome_state (connectionLost s reason))"
proof (cases "deferred_unfired s")
  case True
  then show ?thesis
    by (simp add: connectionLost_unfired outcome_state_def registry_sound_def
        registry_open_def registered_def)
next
  case False
  then show ?thesis
    using assms
    by (auto simp: connectionLost_fired outcome_state_def elim!: registry_sound_cong)
qed

lemma perform_sound:
  "registry_sound s \<Longrightarrow> registry_sound (perform receive s c)"
  by (cases c)
     (auto simp: request_sound dataReceived_sound timeoutConnection_sound connectionLost_sound
        elim!: registry_sound_cong)

lemma run_sound:
  "registry_sound s \<Longrightarrow> registry_sound (run receive s calls)"
  unfolding run_def by (induction calls arbitrary: s) (simp_all add: perform_sound)

text \<open>
  Whatever calls are made on a freshly constructed protocol, the streams of the registry
  exist and are open, no stream is registered under two ids, and no id is registered
  twice: a stream is closed only once it has left the registry.  This is the condition
  under which the loss of the connection resolves every registered stream.
\<close>

theorem registered_streams_are_open:
  "registry_open (run receive (init d c t) calls)
   \<and> distinct (registered (run receive (init d c t) calls))
   \<and> distinct (map fst (streams (run receive (init d c t) calls)))"
  using run_sound [OF init_sound, of receive d c t calls] by (simp add: registry_sound_def)


theorem registered_streams_are_open_witness:
  "registry_open (run acknowledging_codec (init None example_conn example_transport)
     [CallRequest (RequestObject ''a''), CallDataReceived ''settings'',
      CallRequest (RequestObject ''b''), CallConnectionLost ConnectionDone])"
  using registered_streams_are_open [of acknowledging_codec None example_conn example_transport
     "[CallRequest (RequestObject ''a''), CallDataReceived ''settings'',
      CallRequest (RequestObject ''b''), CallConnectionLost ConnectionDone]"]
  by simp


lemma within_limit_cong:
  "within_limit s \<Longrightarrow> conn s' = conn s \<Longrightarrow> active_streams s' \<le> active_streams s \<Longrightarrow>
   within_limit s'"
  by (simp add: within_limit_def allowed_max_concurrent_streams_def)



lemma close_streams_within:
  "within_limit s \<Longrightarrow> within_limit (close_streams rs s)"
  by (erule within_limit_cong) simp_all











section \<open>The admission algorithm\<close>








end
